theory Spec2Isabelle
  imports Main "HOL-Library.Sublist" "HOL-Library.Multiset"
begin

section \<open>Strings of the program\<close>

text \<open>
  A Python \<open>str\<close> is a sequence of code points. The model reads an Isabelle \<open>char\<close> as
  a code point below 256 (Latin-1), so that \<open>length\<close> counts what Python's \<open>len\<close> counts and
  the accented letters of the source's patterns are single characters. The character
  predicates below are Python's, restricted to that range.
\<close>

definition ord :: "char \<Rightarrow> nat" where
  "ord c = of_char c"

text \<open>\<open>str.isdecimal\<close> on one character: the decimal digits \<open>0\<close> to \<open>9\<close>.\<close>

definition isdecimal_char :: "char \<Rightarrow> bool" where
  "isdecimal_char c = (48 \<le> ord c \<and> ord c \<le> 57)"

text \<open>
  \<open>str.isdigit\<close> on one character: Numeric_Type Decimal or Digit. Below 256 these are the
  decimal digits and the superscripts two, three and one (U+00B2, U+00B3, U+00B9).
\<close>

definition isdigit_char :: "char \<Rightarrow> bool" where
  "isdigit_char c = (isdecimal_char c \<or> ord c = 0xB2 \<or> ord c = 0xB3 \<or> ord c = 0xB9)"

text \<open>\<open>str.isdigit\<close>: at least one character, and every character is a digit.\<close>

definition str_isdigit :: "string \<Rightarrow> bool" where
  "str_isdigit s = (s \<noteq> [] \<and> list_all isdigit_char s)"

datatype error = ValueError

text \<open>\<open>int(c)\<close> for a one-character string: a decimal digit, or \<open>ValueError\<close>.\<close>

definition py_int_char :: "char \<Rightarrow> error + int" where
  "py_int_char c = (if isdecimal_char c then Inr (int (ord c) - 48) else Inl ValueError)"

section \<open>The finder object\<close>

text \<open>
  The fields of \<open>EANHistoryFinder\<close> that the modelled methods read: \<open>__init__\<close> stores the
  code and the configuration; \<open>proxy_index\<close> and \<open>user_agent\<close> (the session header) are
  the fields that requests mutate.
\<close>

record finder =
  ean :: string
  max_results :: int
  lang :: string
  proxies :: "string list"
  proxy_index :: nat
  user_agent :: string

section \<open>validate_ean\<close>

definition valid_lengths :: "nat list" where
  "valid_lengths = [8, 13, 14]"

text \<open>
  The loop \<open>for i in range(12): digit = int(self.ean[i]); total += digit if i % 2 == 0
  else digit * 3\<close>, over the remaining indices; \<open>int\<close> may raise.
\<close>

primrec ean13_total :: "string \<Rightarrow> nat list \<Rightarrow> int \<Rightarrow> error + int" where
  "ean13_total e [] tot = Inr tot"
| "ean13_total e (i # rest) tot =
     (case py_int_char (e ! i) of
        Inl err \<Rightarrow> Inl err
      | Inr digit \<Rightarrow> ean13_total e rest (tot + (if i mod 2 = 0 then digit else digit * 3)))"

definition validate_ean :: "'a finder_scheme \<Rightarrow> error + bool" where
  "validate_ean self =
     (if \<not> str_isdigit (ean self) then Inr False
      else if length (ean self) \<notin> set valid_lengths then Inr False
      else if length (ean self) = 13 then
        (case ean13_total (ean self) [0..<12] 0 of
           Inl err \<Rightarrow> Inl err
         | Inr tot \<Rightarrow>
             (case py_int_char (ean self ! 12) of
                Inl err \<Rightarrow> Inl err
              | Inr last_digit \<Rightarrow> Inr ((10 - tot mod 10) mod 10 = last_digit)))
      else Inr True)"

text \<open>A finder as \<open>__init__\<close> builds it from the command line's defaults.\<close>

definition new_finder :: "string \<Rightarrow> finder" where
  "new_finder e = \<lparr>ean = e, max_results = 10, lang = ''es'', proxies = [],
     proxy_index = 0, user_agent = []\<rparr>"

section \<open>Character classes of Python's \<open>re\<close> and \<open>str\<close>\<close>

text \<open>
  \<open>str.isspace\<close> and the class \<open>\s\<close> of a \<open>str\<close> pattern: below 256 these are the
  characters 9 to 13, 28 to 32, 0x85 and 0xA0.
\<close>

definition isspace_char :: "char \<Rightarrow> bool" where
  "isspace_char c =
     ((9 \<le> ord c \<and> ord c \<le> 13) \<or> (28 \<le> ord c \<and> ord c \<le> 32) \<or> ord c = 0x85 \<or> ord c = 0xA0)"

text \<open>
  \<open>str.isalpha\<close> below 256: the ASCII letters, the ordinal indicators and the micro sign,
  and the Latin-1 letters (0xC0 to 0xFF without the multiplication and division signs).
\<close>

definition isalpha_char :: "char \<Rightarrow> bool" where
  "isalpha_char c =
     ((65 \<le> ord c \<and> ord c \<le> 90) \<or> (97 \<le> ord c \<and> ord c \<le> 122)
      \<or> ord c = 0xAA \<or> ord c = 0xB5 \<or> ord c = 0xBA
      \<or> (0xC0 \<le> ord c \<and> ord c \<noteq> 0xD7 \<and> ord c \<noteq> 0xF7))"

text \<open>
  A word character of \<open>\b\<close>: alphanumeric (alphabetic, decimal, digit or numeric: the
  vulgar fractions 0xBC to 0xBE are numeric) or the underscore.
\<close>

definition isword_char :: "char \<Rightarrow> bool" where
  "isword_char c =
     (isalpha_char c \<or> isdigit_char c \<or> (0xBC \<le> ord c \<and> ord c \<le> 0xBE) \<or> ord c = 95)"

text \<open>
  The simple lower-case mapping that \<open>re.IGNORECASE\<close> and \<open>str.lower\<close> apply: \<open>A\<close> to \<open>Z\<close>
  and the capital Latin-1 letters 0xC0 to 0xDE (without 0xD7) move up by 32.
\<close>

definition py_lower :: "char \<Rightarrow> char" where
  "py_lower c =
     (if (65 \<le> ord c \<and> ord c \<le> 90) \<or> (0xC0 \<le> ord c \<and> ord c \<le> 0xDE \<and> ord c \<noteq> 0xD7)
      then char_of (ord c + 32) else c)"

definition str_lower :: "string \<Rightarrow> string" where
  "str_lower s = map py_lower s"

text \<open>\<open>str.strip()\<close>: white space removed at both ends.\<close>

definition str_strip :: "string \<Rightarrow> string" where
  "str_strip s = rev (dropWhile isspace_char (rev (dropWhile isspace_char s)))"

text \<open>\<open>sub in s\<close> and \<open>s.find(sub)\<close>: the first index where \<open>sub\<close> starts, or \<open>-1\<close>.\<close>

definition str_contains :: "string \<Rightarrow> string \<Rightarrow> bool" where
  "str_contains sub s = sublist sub s"

fun find_from :: "string \<Rightarrow> string \<Rightarrow> nat \<Rightarrow> int" where
  "find_from sub [] i = (if sub = [] then int i else - 1)"
| "find_from sub (x # t) i = (if prefix sub (x # t) then int i else find_from sub t (Suc i))"

definition str_find :: "string \<Rightarrow> string \<Rightarrow> int" where
  "str_find s sub = find_from sub s 0"

text \<open>
  The slice \<open>s[a:b]\<close>: a negative index counts from the end, and both indices are clamped
  to the string.
\<close>

definition slice_index :: "int \<Rightarrow> int \<Rightarrow> int" where
  "slice_index n i = (if i < 0 then max 0 (n + i) else min n i)"

definition str_slice :: "string \<Rightarrow> int \<Rightarrow> int \<Rightarrow> string" where
  "str_slice s a b =
     (let n = int (length s); lo = slice_index n a; hi = slice_index n b
      in take (nat (hi - lo)) (drop (nat lo) s))"

section \<open>The regular expressions of the source\<close>

text \<open>
  The patterns of \<open>analyze_content\<close> use literals, character sets, repetition of one
  character set (greedy, and lazy in the title pattern), alternation, one capturing group,
  \<open>^\<close>, \<open>\b\<close> and a one-character look-behind. The matcher is a backtracking matcher as
  Python's: it lists the ways a pattern matches from a position in priority order (an
  earlier alternative first, a longer greedy repetition first), so that the head of the list
  is the match Python reports.
\<close>

datatype cset_item = CChar char | CRange char char | CSpace | CDigit

datatype atom = In "cset_item list" | NotIn "cset_item list" | AnyAll

datatype regex =
    Eps
  | Lit string
  | One atom
  | Rep atom nat "nat option" bool
  | Seq regex regex
  | Alt regex regex
  | Grp regex
  | Bol
  | WordB
  | Behind atom

text \<open>
  One item of a set against a character. Under \<open>IGNORECASE\<close> the compiler lower-cases the
  members of the set and the matcher lower-cases the character before the test (the
  caller passes the lower-cased character).
\<close>

fun item_match :: "bool \<Rightarrow> cset_item \<Rightarrow> char \<Rightarrow> bool" where
  "item_match ic (CChar x) c = ((if ic then py_lower x else x) = c)"
| "item_match ic (CRange lo hi) c =
     (if ic then list_ex (\<lambda>i. py_lower (char_of i) = c) [ord lo ..< Suc (ord hi)]
      else ord lo \<le> ord c \<and> ord c \<le> ord hi)"
| "item_match ic CSpace c = isspace_char c"
| "item_match ic CDigit c = isdecimal_char c"

fun atom_match :: "bool \<Rightarrow> atom \<Rightarrow> char \<Rightarrow> bool" where
  "atom_match ic (In items) c = list_ex (\<lambda>it. item_match ic it (if ic then py_lower c else c)) items"
| "atom_match ic (NotIn items) c =
     (\<not> list_ex (\<lambda>it. item_match ic it (if ic then py_lower c else c)) items)"
| "atom_match ic AnyAll c = True"

text \<open>A literal character of the pattern against a character of the text.\<close>

definition char_eq :: "bool \<Rightarrow> char \<Rightarrow> char \<Rightarrow> bool" where
  "char_eq ic x c = (if ic then py_lower x = py_lower c else x = c)"

text \<open>
  The matcher walks the text with a cursor: the position, the character before it (for
  \<open>\b\<close> and the look-behind; none at the start) and the text from the position on.
\<close>

type_synonym cursor = "nat \<times> char option \<times> string"

definition start_cursor :: "string \<Rightarrow> cursor" where
  "start_cursor s = (0, None, s)"

text \<open>A literal from the cursor on: the cursor behind it, when every character agrees.\<close>

fun lit_match :: "bool \<Rightarrow> string \<Rightarrow> cursor \<Rightarrow> cursor option" where
  "lit_match ic [] cur = Some cur"
| "lit_match ic (x # l) (p, b, []) = None"
| "lit_match ic (x # l) (p, b, c # cs) =
     (if char_eq ic x c then lit_match ic l (Suc p, Some c, cs) else None)"

text \<open>
  The cursors behind 0, 1, 2, ... characters of a set, as long as the set accepts the next
  character and the upper bound, when there is one, is not used up.
\<close>

fun runs :: "bool \<Rightarrow> atom \<Rightarrow> nat option \<Rightarrow> cursor \<Rightarrow> cursor list" where
  "runs ic a limit (p, b, []) = [(p, b, [])]"
| "runs ic a limit (p, b, c # cs) =
     (p, b, c # cs) #
       (if limit = Some 0 \<or> \<not> atom_match ic a c then []
        else runs ic a (map_option (\<lambda>n. n - 1) limit) (Suc p, Some c, cs))"

text \<open>The group's span, when the group took part in the match.\<close>

type_synonym capture = "(nat \<times> nat) option"

text \<open>\<open>\b\<close>: exactly one of the two neighbours is a word character.\<close>

fun at_boundary :: "cursor \<Rightarrow> bool" where
  "at_boundary (p, b, rest) =
     ((case b of None \<Rightarrow> False | Some x \<Rightarrow> isword_char x)
      \<noteq> (case rest of [] \<Rightarrow> False | c # cs \<Rightarrow> isword_char c))"

fun rmatch :: "bool \<Rightarrow> regex \<Rightarrow> cursor \<Rightarrow> capture \<Rightarrow> (cursor \<times> capture) list" where
  "rmatch ic Eps cur g = [(cur, g)]"
| "rmatch ic (Lit l) cur g =
     (case lit_match ic l cur of None \<Rightarrow> [] | Some cur' \<Rightarrow> [(cur', g)])"
| "rmatch ic (One a) (p, b, rest) g =
     (case rest of
        [] \<Rightarrow> []
      | c # cs \<Rightarrow> if atom_match ic a c then [((Suc p, Some c, cs), g)] else [])"
| "rmatch ic (Rep a lo hi greedy) cur g =
     (let ends = drop lo (runs ic a hi cur)
      in map (\<lambda>cur'. (cur', g)) (if greedy then rev ends else ends))"
| "rmatch ic (Seq r1 r2) cur g =
     concat (map (\<lambda>(cur', g'). rmatch ic r2 cur' g') (rmatch ic r1 cur g))"
| "rmatch ic (Alt r1 r2) cur g = rmatch ic r1 cur g @ rmatch ic r2 cur g"
| "rmatch ic (Grp r) cur g =
     map (\<lambda>(cur', g'). (cur', Some (fst cur, fst cur'))) (rmatch ic r cur g)"
| "rmatch ic Bol cur g = (if fst cur = 0 then [(cur, g)] else [])"
| "rmatch ic WordB cur g = (if at_boundary cur then [(cur, g)] else [])"
| "rmatch ic (Behind a) (p, b, rest) g =
     (case b of
        None \<Rightarrow> []
      | Some x \<Rightarrow> if atom_match ic a x then [((p, b, rest), g)] else [])"

text \<open>
  A match object: where the whole match starts and ends, and the group's span.
\<close>

record rematch =
  m_start :: nat
  m_end :: nat
  m_group :: capture

text \<open>
  The first match that starts exactly at the cursor; with \<open>must_advance\<close> (set by
  \<open>finditer\<close> after an empty match) an empty match is passed over.
\<close>

definition match_at :: "bool \<Rightarrow> regex \<Rightarrow> cursor \<Rightarrow> bool \<Rightarrow> rematch option" where
  "match_at ic r cur must_advance =
     (case filter (\<lambda>(cur', g). \<not> must_advance \<or> fst cur < fst cur') (rmatch ic r cur None) of
        [] \<Rightarrow> None
      | (cur', g) # _ \<Rightarrow> Some \<lparr>m_start = fst cur, m_end = fst cur', m_group = g\<rparr>)"

text \<open>\<open>re.search\<close>: the leftmost position with a match.\<close>

fun search_from :: "bool \<Rightarrow> regex \<Rightarrow> cursor \<Rightarrow> rematch option" where
  "search_from ic r (p, b, []) = match_at ic r (p, b, []) False"
| "search_from ic r (p, b, c # cs) =
     (case match_at ic r (p, b, c # cs) False of
        Some m \<Rightarrow> Some m
      | None \<Rightarrow> search_from ic r (Suc p, Some c, cs))"

definition re_search :: "bool \<Rightarrow> regex \<Rightarrow> string \<Rightarrow> rematch option" where
  "re_search ic r s = search_from ic r (start_cursor s)"

text \<open>
  \<open>finditer\<close>: the non-overlapping matches from left to right. No match is tried before
  the position \<open>resume\<close>, the end of the last match. After an empty match the same
  position is tried once more for a match that is not empty.
\<close>

fun finditer_from :: "bool \<Rightarrow> regex \<Rightarrow> nat \<Rightarrow> cursor \<Rightarrow> rematch list" where
  "finditer_from ic r resume (p, b, []) =
     (if p < resume then []
      else case match_at ic r (p, b, []) False of None \<Rightarrow> [] | Some m \<Rightarrow> [m])"
| "finditer_from ic r resume (p, b, c # cs) =
     (if p < resume then finditer_from ic r resume (Suc p, Some c, cs)
      else case match_at ic r (p, b, c # cs) False of
             None \<Rightarrow> finditer_from ic r resume (Suc p, Some c, cs)
           | Some m \<Rightarrow>
               if p < m_end m then m # finditer_from ic r (m_end m) (Suc p, Some c, cs)
               else (case match_at ic r (p, b, c # cs) True of
                       None \<Rightarrow> m # finditer_from ic r resume (Suc p, Some c, cs)
                     | Some m' \<Rightarrow> m # m' # finditer_from ic r (m_end m') (Suc p, Some c, cs)))"

definition finditer :: "bool \<Rightarrow> regex \<Rightarrow> string \<Rightarrow> rematch list" where
  "finditer ic r s = finditer_from ic r 0 (start_cursor s)"

text \<open>
  A cursor that lies ahead of another on the same text: further on by some characters,
  with the text that is left after them.
\<close>

definition ahead :: "cursor \<Rightarrow> cursor \<Rightarrow> bool" where
  "ahead cur cur' =
     (fst cur \<le> fst cur' \<and> fst cur' - fst cur \<le> length (snd (snd cur))
      \<and> snd (snd cur') = drop (fst cur' - fst cur) (snd (snd cur)))"

text \<open>
  \<open>match.group(0)\<close> and \<open>match.group(1)\<close> as strings. The source takes \<open>group(1)\<close>
  only from patterns whose group takes part in every match (lemma
  \<open>source_patterns_set_group\<close>), so the value for a match without the group is never used.
\<close>

definition group0 :: "string \<Rightarrow> rematch \<Rightarrow> string" where
  "group0 s m = take (m_end m - m_start m) (drop (m_start m) s)"

definition group1 :: "string \<Rightarrow> rematch \<Rightarrow> string" where
  "group1 s m = (case m_group m of Some (a, b) \<Rightarrow> take (b - a) (drop a s) | None \<Rightarrow> [])"

text \<open>\<open>re.sub(r'\s+', ' ', s)\<close>: every maximal run of white space becomes one space.\<close>

function sub_spaces :: "string \<Rightarrow> string" where
  "sub_spaces [] = []"
| "sub_spaces (c # cs) =
     (if isspace_char c then CHR '' '' # sub_spaces (dropWhile isspace_char cs)
      else c # sub_spaces cs)"
  by pat_completeness auto
termination
  by (relation "measure length") (auto simp: less_Suc_eq_le length_dropWhile_le)

section \<open>The patterns of \<open>analyze_content\<close>\<close>

primrec seqs :: "regex list \<Rightarrow> regex" where
  "seqs [] = Eps"
| "seqs (r # rs) = Seq r (seqs rs)"

fun alts :: "regex list \<Rightarrow> regex" where
  "alts [] = Eps"
| "alts [r] = r"
| "alts (r # rs) = Alt r (alts rs)"

text \<open>The non-capturing alternation of words \<open>(?:w1|w2|...)\<close>.\<close>

definition words :: "string list \<Rightarrow> regex" where
  "words ws = alts (map Lit ws)"

text \<open>The sets \<open>[\s:-]\<close>, \<open>[\s:]\<close>, \<open>[\s,]\<close>, \<open>[^\n\.]\<close>, \<open>[\n\.]\<close>, \<open>[/-]\<close> and \<open>\d\<close>.\<close>

definition ws_colon_dash :: atom where
  "ws_colon_dash = In [CSpace, CChar (CHR '':''), CChar (CHR ''-'')]"

definition ws_colon :: atom where
  "ws_colon = In [CSpace, CChar (CHR '':'')]"

definition ws_comma :: atom where
  "ws_comma = In [CSpace, CChar (CHR '','')]"

definition not_nl_dot :: atom where
  "not_nl_dot = NotIn [CChar (CHR 0x0A), CChar (CHR ''.'')]"

definition nl_dot :: atom where
  "nl_dot = In [CChar (CHR 0x0A), CChar (CHR ''.'')]"

definition slash_dash :: atom where
  "slash_dash = In [CChar (CHR ''/''), CChar (CHR ''-'')]"

definition digit :: atom where
  "digit = In [CDigit]"

text \<open>
  \<open>ean_patterns\<close>, compiled without flags; \<open>re.escape(self.ean)\<close> is the code as a
  literal.
\<close>

definition ean_patterns :: "string \<Rightarrow> regex list" where
  "ean_patterns e =
    [Seq WordB (Seq (Lit e) WordB),
     Seq (Lit ''EAN'') (Seq (Rep ws_colon_dash 0 None True) (Lit e)),
     Seq (Lit (''c'' @ [CHR 0xF3] @ ''digo'')) (Seq (Rep ws_colon_dash 0 None True) (Lit e)),
     Seq (Lit ''barcode'') (Seq (Rep ws_colon_dash 0 None True) (Lit e)),
     Seq (Lit ''UPC'') (Seq (Rep ws_colon_dash 0 None True) (Lit e))]"

text \<open>\<open>(?:^|(?<=[\n\.]))\<close>: the start of the window, or just after a newline or a dot.\<close>

definition line_start :: regex where
  "line_start = Alt Bol (Behind nl_dot)"

definition product_patterns :: "regex list" where
  "product_patterns =
    [Seq (words [''producto'', (''art'' @ [CHR 0xED] @ ''culo''), ''item'', ''product'',
              ''item''])
       (Seq (Rep ws_colon 1 None True) (Grp (Rep not_nl_dot 5 (Some 50) True))),
     Seq (words [''nombre'', (''t'' @ [CHR 0xED] @ ''tulo''), ''name'', ''title''])
       (Seq (Rep ws_colon 1 None True) (Grp (Rep not_nl_dot 5 (Some 50) True))),
     Seq (words [''modelo'', ''referencia'', ''model'', ''reference''])
       (Seq (Rep ws_colon 1 None True) (Grp (Rep not_nl_dot 5 (Some 50) True))),
     Seq (words [(''descripci'' @ [CHR 0xF3] @ ''n''), ''description''])
       (Seq (Rep ws_colon 1 None True) (Grp (Rep not_nl_dot 5 (Some 50) True))),
     Seq line_start
       (Grp (Seq (One (In [CRange (CHR ''A'') (CHR ''Z'')])) (Rep not_nl_dot 5 (Some 50) True))),
     Seq line_start
       (Grp (Rep (NotIn [CRange (CHR ''a'') (CHR ''z''), CChar (CHR 0x0A), CChar (CHR ''.'')])
               5 (Some 50) True))]"

text \<open>\<open><title[^>]*>(.*?)</title>\<close>, used with \<open>IGNORECASE\<close> and \<open>DOTALL\<close>.\<close>

definition title_pattern :: regex where
  "title_pattern =
     Seq (Lit ''<title'')
       (Seq (Rep (NotIn [CChar (CHR ''>'')]) 0 None True)
          (Seq (Lit ''>'') (Seq (Grp (Rep AnyAll 0 None False)) (Lit ''</title>''))))"

definition date_patterns :: "regex list" where
  "date_patterns =
    [Seq (words [(''a'' @ [CHR 0xF1] @ ''o''), ''modelo'', ''year'', ''model''])
       (Seq (Rep ws_colon 1 None True) (Grp (Rep digit 4 (Some 4) True))),
     Seq (words [(''versi'' @ [CHR 0xF3] @ ''n''), (''edici'' @ [CHR 0xF3] @ ''n''), ''version'',
          ''edition''])
       (Seq (Rep ws_colon 1 None True) (Grp (Rep not_nl_dot 5 (Some 30) True))),
     words [''descatalogado'', ''discontinuado'', ''obsoleto'', ''discontinued'', ''obsolete''],
     words [''anterior'', ''previo'', ''antiguo'', ''previous'', ''old'', ''former''],
     Seq (words [''desde'', ''hasta'', ''entre'', ''from'', ''to'', ''between''])
       (Seq (Rep ws_colon 1 None True) (Grp (Rep digit 4 (Some 4) True))),
     Grp (seqs [Rep digit 1 (Some 2) True, One slash_dash, Rep digit 1 (Some 2) True,
                One slash_dash, Rep digit 2 (Some 4) True]),
     Grp (seqs [Rep digit 4 (Some 4) True, One slash_dash, Rep digit 1 (Some 2) True,
                One slash_dash, Rep digit 1 (Some 2) True]),
     Seq (words [''enero'', ''febrero'', ''marzo'', ''abril'', ''mayo'', ''junio'', ''julio'',
          ''agosto'', ''septiembre'', ''octubre'', ''noviembre'', ''diciembre''])
       (Seq (Rep ws_comma 1 None True) (Grp (Rep digit 4 (Some 4) True))),
     Seq (words [''january'', ''february'', ''march'', ''april'', ''may'', ''june'', ''july'',
          ''august'', ''september'', ''october'', ''november'', ''december''])
       (Seq (Rep ws_comma 1 None True) (Grp (Rep digit 4 (Some 4) True)))]"

definition historical_indicators :: "regex list" where
  "historical_indicators =
    [words [''descatalogado'', ''discontinuado'', ''obsoleto'', ''discontinued'', ''obsolete''],
     words [''ya no'', ''no disponible'', ''not available'', ''no longer''],
     words [(''versi'' @ [CHR 0xF3] @ ''n anterior''), ''modelo antiguo'', ''previous version'',
      ''old model''],
     words [''reemplazado por'', ''sustituido por'', ''replaced by'', ''substituted by''],
     words [(''hist'' @ [CHR 0xF3] @ ''rico''), ''historia'', ''pasado'', ''historic'',
      ''history'', ''past''],
     words [''fue'', ''era'', ''was'', ''were''],
     words [''antiguo'', (''antig'' @ [CHR 0xFC] @ ''edad''), ''antique'', ''vintage''],
     Seq (words [(''colecci'' @ [CHR 0xF3] @ ''n''), ''collection''])
       (Seq (Lit '' '') (words [''pasada'', ''anterior'', ''old'']))]"

definition current_indicators :: "regex list" where
  "current_indicators =
    [words [''nuevo'', ''actual'', ''vigente'', ''new'', ''current''],
     words [''disponible'', ''en stock'', ''available'', ''in stock''],
     words [(''versi'' @ [CHR 0xF3] @ ''n actual''), ([CHR 0xFA] @ ''ltimo modelo''),
      ''current version'', ''latest model''],
     words [''reciente'', (''reci'' @ [CHR 0xE9] @ ''n''), ''recent'', ''recently''],
     words [''comprar'', ''compra ahora'', ''buy'', ''buy now''],
     words [(''a'' @ [CHR 0xF1] @ ''adir al carrito''), ''add to cart''],
     words [''precio actual'', ''current price''],
     Seq (words [(''env'' @ [CHR 0xED] @ ''o''), ''shipping''])
       (Seq (Lit '' '') (words [''gratis'', ''gratuito'', ''free'']))]"

text \<open>\<open>match.groups()\<close> is non-empty exactly when the pattern has a group.\<close>

primrec has_groups :: "regex \<Rightarrow> bool" where
  "has_groups Eps = False"
| "has_groups (Lit l) = False"
| "has_groups (One a) = False"
| "has_groups (Rep a lo hi g) = False"
| "has_groups (Seq r1 r2) = (has_groups r1 \<or> has_groups r2)"
| "has_groups (Alt r1 r2) = (has_groups r1 \<or> has_groups r2)"
| "has_groups (Grp r) = True"
| "has_groups Bol = False"
| "has_groups WordB = False"
| "has_groups (Behind a) = False"

text \<open>
  A pattern whose every match sets the group: the group lies on every way through it.
\<close>

primrec sets_group :: "regex \<Rightarrow> bool" where
  "sets_group Eps = False"
| "sets_group (Lit l) = False"
| "sets_group (One a) = False"
| "sets_group (Rep a lo hi g) = False"
| "sets_group (Seq r1 r2) = (sets_group r1 \<or> sets_group r2)"
| "sets_group (Alt r1 r2) = (sets_group r1 \<and> sets_group r2)"
| "sets_group (Grp r) = True"
| "sets_group Bol = False"
| "sets_group WordB = False"
| "sets_group (Behind a) = False"

section \<open>analyze_content\<close>

text \<open>
  The dictionaries of the program: a search result of Google (built by
  \<open>search_with_requests\<close>), a finding, and the result for one URL.
\<close>

record candidate =
  title :: string
  link :: string
  snippet :: string

record finding =
  product_name :: string
  date_clue :: string
  assessment :: string
  snippet :: string
  url :: string

record source_result =
  url :: string
  findings :: "finding list"

definition NO_IDENTIFICADO :: string where
  "NO_IDENTIFICADO = ''No identificado''"

definition HISTORICO :: string where
  "HISTORICO = ''Hist'' @ [CHR 0xF3] @ ''rico''"

definition ACTUAL :: string where
  "ACTUAL = ''Actual''"

definition INDETERMINADO :: string where
  "INDETERMINADO = ''Indeterminado''"

text \<open>
  The window around a match: \<open>start = max(0, match.start() - 400)\<close> and
  \<open>end = min(len(content), match.end() + 400)\<close>.
\<close>

definition window_start :: "rematch \<Rightarrow> int" where
  "window_start m = max 0 (int (m_start m) - 400)"

definition window_end :: "string \<Rightarrow> rematch \<Rightarrow> int" where
  "window_end content m = min (int (length content)) (int (m_end m) + 400)"

definition context_of :: "string \<Rightarrow> rematch \<Rightarrow> string" where
  "context_of content m = str_slice content (window_start m) (window_end content m)"

text \<open>
  \<open>for pattern in patterns: m = re.search(pattern, context, re.IGNORECASE); if m: ...; break\<close>:
  the first pattern of the list that matches, with its match.
\<close>

fun first_search :: "regex list \<Rightarrow> string \<Rightarrow> (regex \<times> rematch) option" where
  "first_search [] context = None"
| "first_search (r # rs) context =
     (case re_search True r context of
        Some m \<Rightarrow> Some (r, m)
      | None \<Rightarrow> first_search rs context)"

text \<open>The title of the page, when the title pattern matches the content.\<close>

definition title_of :: "string \<Rightarrow> string option" where
  "title_of content =
     (case re_search True title_pattern content of
        Some m \<Rightarrow> Some (str_strip (group1 content m))
      | None \<Rightarrow> None)"

definition find_product_name :: "string \<Rightarrow> string \<Rightarrow> string" where
  "find_product_name content context =
     (let product_name =
            (case first_search product_patterns context of
               Some (r, m) \<Rightarrow> str_strip (group1 context m)
             | None \<Rightarrow> NO_IDENTIFICADO)
      in if product_name = NO_IDENTIFICADO \<and> str_contains ''title'' (str_lower content)
         then (case title_of content of Some t \<Rightarrow> t | None \<Rightarrow> product_name)
         else product_name)"

definition find_date_clue :: "string \<Rightarrow> string" where
  "find_date_clue context =
     (case first_search date_patterns context of
        Some (r, m) \<Rightarrow>
          (if has_groups r then str_strip (group1 context m) else str_strip (group0 context m))
      | None \<Rightarrow> NO_IDENTIFICADO)"

text \<open>The two scores: how many patterns of each list are found in the window.\<close>

definition score :: "regex list \<Rightarrow> string \<Rightarrow> nat" where
  "score indicators context =
     length (filter (\<lambda>r. re_search True r context \<noteq> None) indicators)"

definition historical_score :: "string \<Rightarrow> nat" where
  "historical_score context = score historical_indicators context"

definition current_score :: "string \<Rightarrow> nat" where
  "current_score context = score current_indicators context"

definition assess :: "string \<Rightarrow> string" where
  "assess context =
     (if historical_score context > current_score context then HISTORICO
      else if current_score context > historical_score context then ACTUAL
      else INDETERMINADO)"

definition clean_snippet :: "string \<Rightarrow> string" where
  "clean_snippet context = str_strip (sub_spaces context)"

text \<open>The dictionary built for one match.\<close>

definition finding_of :: "string \<Rightarrow> string \<Rightarrow> rematch \<Rightarrow> finding" where
  "finding_of content u m =
     (let context = context_of content m
      in \<lparr>product_name = find_product_name content context,
          date_clue = find_date_clue context,
          assessment = assess context,
          snippet = clean_snippet context,
          finding.url = u\<rparr>)"

text \<open>The body of the inner loop: the finding is appended unless its snippet is there.\<close>

definition add_finding :: "string \<Rightarrow> string \<Rightarrow> finding list \<Rightarrow> rematch \<Rightarrow> finding list" where
  "add_finding content u fs m =
     (let f = finding_of content u m
      in if list_ex (\<lambda>existing. snippet existing = snippet f) fs then fs else fs @ [f])"

text \<open>The matches of all patterns, in the order the two nested loops visit them.\<close>

definition mentions :: "string \<Rightarrow> string \<Rightarrow> rematch list" where
  "mentions e content = concat (map (\<lambda>pattern. finditer False pattern content) (ean_patterns e))"

definition pattern_findings :: "string \<Rightarrow> string \<Rightarrow> string \<Rightarrow> finding list" where
  "pattern_findings e content u = foldl (add_finding content u) [] (mentions e content)"

text \<open>The fallback: the window around the first literal occurrence of the code.\<close>

definition fallback_start :: "string \<Rightarrow> string \<Rightarrow> int" where
  "fallback_start e content = max 0 (str_find content e - 400)"

definition fallback_end :: "string \<Rightarrow> string \<Rightarrow> int" where
  "fallback_end e content = min (int (length content)) (str_find content e + 400)"

definition fallback_finding :: "string \<Rightarrow> string \<Rightarrow> string \<Rightarrow> finding" where
  "fallback_finding e content u =
     (let context = str_slice content (fallback_start e content) (fallback_end e content)
      in \<lparr>product_name = (case title_of content of Some t \<Rightarrow> t | None \<Rightarrow> NO_IDENTIFICADO),
          date_clue = NO_IDENTIFICADO,
          assessment = INDETERMINADO,
          snippet = clean_snippet context,
          finding.url = u\<rparr>)"

definition analyze_content :: "'a finder_scheme \<Rightarrow> string \<Rightarrow> string \<Rightarrow> source_result option" where
  "analyze_content self content u =
     (if content = [] then None
      else
        let fs = pattern_findings (ean self) content u;
            fs' = (if fs = [] \<and> str_contains (ean self) content
                   then fs @ [fallback_finding (ean self) content u] else fs)
        in if fs' \<noteq> [] then Some \<lparr>source_result.url = u, findings = fs'\<rparr> else None)"

section \<open>search\<close>

text \<open>The search terms that \<open>__init__\<close> derives from the code.\<close>

definition search_terms :: "string \<Rightarrow> string list" where
  "search_terms e =
    [e,
     e @ '' producto'',
     e @ '' c'' @ [CHR 0xF3] @ ''digo de barras'',
     e @ '' barcode'',
     e @ '' upc'',
     e @ '' hist'' @ [CHR 0xF3] @ ''rico'',
     e @ '' descatalogado'',
     e @ '' versi'' @ [CHR 0xF3] @ ''n anterior'',
     ''c'' @ [CHR 0xF3] @ ''digo de barras '' @ e,
     ''barcode '' @ e,
     ''EAN '' @ e]"

text \<open>
  What the network answers during one run: the results of the three direct lookups
  (\<open>None\<close> when the method returns \<open>None\<close>), the result list of
  \<open>search_with_requests\<close> for a term (\<open>None\<close> when the call raises), and the text
  that \<open>extract_content_from_url\<close> returns for a URL (empty on an error).
\<close>

record world =
  search_openfoodfacts :: "source_result option"
  search_wayback_machine :: "source_result option"
  search_amazon :: "source_result option"
  search_with_requests :: "string \<Rightarrow> candidate list option"
  extract_content_from_url :: "string \<Rightarrow> string"

text \<open>\<open>_process_url\<close>: the analysis of the page's text, when there is text.\<close>

definition process_url :: "'a finder_scheme \<Rightarrow> world \<Rightarrow> string \<Rightarrow> source_result option" where
  "process_url self w u =
     (let content = extract_content_from_url w u
      in if content \<noteq> [] then analyze_content self content u else None)"

text \<open>
  The first loop takes the Google tasks in the order they complete (\<open>term_order\<close>) and
  submits an analysis for the links of the first three results of each; a task that
  raised submits nothing.
\<close>

definition urls_of :: "world \<Rightarrow> string \<Rightarrow> string list" where
  "urls_of w term =
     (case search_with_requests w term of
        None \<Rightarrow> []
      | Some results \<Rightarrow> filter (\<lambda>u. u \<noteq> []) (map link (take 3 results)))"

definition url_analysis :: "world \<Rightarrow> string list \<Rightarrow> string list" where
  "url_analysis w term_order = concat (map (urls_of w) term_order)"

text \<open>The results of \<open>all_futures\<close>, in the order of submission.\<close>

definition all_futures :: "'a finder_scheme \<Rightarrow> world \<Rightarrow> string list \<Rightarrow> source_result option list" where
  "all_futures self w term_order =
     [search_openfoodfacts w, search_wayback_machine w, search_amazon w]
     @ map (process_url self w) (url_analysis w term_order)"

text \<open>\<open>if analysis and analysis.get("findings")\<close>: the result is kept.\<close>

definition kept :: "source_result option \<Rightarrow> source_result list" where
  "kept analysis =
     (case analysis of
        None \<Rightarrow> []
      | Some a \<Rightarrow> if findings a \<noteq> [] then [a] else [])"

text \<open>
  \<open>search\<close>: \<open>done_order\<close> lists the indices of \<open>all_futures\<close> in the order the
  second loop sees them complete.
\<close>

definition search ::
  "'a finder_scheme \<Rightarrow> world \<Rightarrow> string list \<Rightarrow> nat list \<Rightarrow> error + source_result list" where
  "search self w term_order done_order =
     (case validate_ean self of
        Inl err \<Rightarrow> Inl err
      | Inr valid \<Rightarrow>
          if \<not> valid then Inr []
          else Inr (let futures = all_futures self w term_order
                    in concat (map (\<lambda>i. kept (futures ! i)) done_order)))"

text \<open>A world where every lookup comes back empty.\<close>

definition silent_world :: world where
  "silent_world =
     \<lparr>search_openfoodfacts = None, search_wayback_machine = None, search_amazon = None,
      search_with_requests = (\<lambda>term. Some []), extract_content_from_url = (\<lambda>u. [])\<rparr>"

text \<open>
  A world with one answer: the search for the bare code \<open>12345678\<close> finds one page, and
  every page reads \<open>EAN 12345678\<close>.
\<close>

definition one_page_world :: world where
  "one_page_world =
     \<lparr>search_openfoodfacts = None, search_wayback_machine = None, search_amazon = None,
      search_with_requests =
        (\<lambda>term. if term = ''12345678''
                then Some [\<lparr>title = ''Chocolate'', link = ''http://tienda.example/p'', snippet = []\<rparr>]
                else None),
      extract_content_from_url = (\<lambda>u. ''EAN 12345678'')\<rparr>"


text \<open>The content of the specification's scenario, as it is written there.\<close>

definition scenario_content :: string where
  "scenario_content = ''...EAN 1234567890123 fue descatalogado en 2015...''"

text \<open>
  The digit value and the check digit as the specification words them: weight 1 at the
  even indices and weight 3 at the odd indices of the first twelve digits.
\<close>

definition digit_value :: "char \<Rightarrow> int" where
  "digit_value c = int (ord c) - 48"

definition spec_check_digit :: "string \<Rightarrow> int" where
  "spec_check_digit e =
     (10 - (\<Sum>i<12. (if even i then 1 else 3) * digit_value (e ! i)) mod 10) mod 10"

section \<open>Lower case, bit by bit\<close>

text \<open>
  The lower-case mapping on the bits of a character: a capital letter is a character
  with bit 6 set and bit 5 clear whose low five bits are 1 to 26 (ASCII), or anything but
  23 and 31 when bit 7 is set (Latin-1); lowering sets bit 5. Evaluation uses this equation.
\<close>

lemma py_lower_bits [code]:
  "py_lower (Char b0 b1 b2 b3 b4 b5 b6 b7) =
     (if b6 \<and> \<not> b5
         \<and> (if b7 then \<not> (b4 \<and> b2 \<and> b1 \<and> b0)
             else (b0 \<or> b1 \<or> b2 \<or> b3 \<or> b4) \<and> \<not> (b4 \<and> b3 \<and> (b2 \<or> (b1 \<and> b0))))
      then Char b0 b1 b2 b3 b4 True b6 b7
      else Char b0 b1 b2 b3 b4 b5 b6 b7)"
  by (cases b0; cases b1; cases b2; cases b3; cases b4; cases b5; cases b6; cases b7)
     (simp_all add: py_lower_def ord_def char_of_def bit_0)

section \<open>The matcher stays inside the text\<close>

lemma ahead_refl: "ahead cur cur"
  by (simp add: ahead_def)

lemma ahead_trans: "ahead a b \<Longrightarrow> ahead b c \<Longrightarrow> ahead a c"
  by (auto simp: ahead_def)

lemma ahead_step: "ahead (p, b, c # cs) (Suc p, b', cs)"
  by (simp add: ahead_def)

lemma lit_match_ahead: "lit_match ic l cur = Some cur' \<Longrightarrow> ahead cur cur'"
proof (induction ic l cur rule: lit_match.induct)
  case (1 ic cur)
  then show ?case by (simp add: ahead_refl)
next
  case (2 ic x l p b)
  then show ?case by simp
next
  case (3 ic x l p b c cs)
  then show ?case
    by (auto split: if_splits intro: ahead_trans [OF ahead_step])
qed

lemma lit_match_prefix: "lit_match False l cur = Some cur' \<Longrightarrow> prefix l (snd (snd cur))"
  by (induction "False" l cur rule: lit_match.induct) (auto simp: char_eq_def split: if_splits)

lemma runs_ahead: "cur' \<in> set (runs ic a limit cur) \<Longrightarrow> ahead cur cur'"
proof (induction ic a limit cur rule: runs.induct)
  case (1 ic a limit p b)
  then show ?case by (simp add: ahead_refl)
next
  case (2 ic a limit p b c cs)
  then show ?case
    by (auto simp: ahead_refl split: if_splits intro: ahead_trans [OF ahead_step])
qed

lemma rmatch_ahead: "(cur', g') \<in> set (rmatch ic r cur g) \<Longrightarrow> ahead cur cur'"
proof (induction r arbitrary: cur g cur' g')
  case Eps
  then show ?case by (simp add: ahead_refl)
next
  case (Lit l)
  then show ?case by (cases "lit_match ic l cur") (auto dest: lit_match_ahead)
next
  case (One a)
  then show ?case
    by (cases cur) (auto split: list.splits if_splits simp: ahead_step)
next
  case (Rep a lo hi greedy)
  then show ?case
    by (auto simp: Let_def split: if_splits dest: in_set_dropD runs_ahead)
next
  case (Seq r1 r2)
  from Seq.prems obtain mid gm where
    "(mid, gm) \<in> set (rmatch ic r1 cur g)" and "(cur', g') \<in> set (rmatch ic r2 mid gm)"
    by auto
  then show ?case
    using Seq.IH by (blast intro: ahead_trans)
next
  case (Alt r1 r2)
  from Alt.prems have "(cur', g') \<in> set (rmatch ic r1 cur g) \<or> (cur', g') \<in> set (rmatch ic r2 cur g)"
    by simp
  then show ?case
    using Alt.IH by blast
next
  case (Grp r)
  from Grp.prems obtain g0 where "(cur', g0) \<in> set (rmatch ic r cur g)"
    by auto
  then show ?case
    using Grp.IH by blast
next
  case Bol
  then show ?case by (auto simp: ahead_refl split: if_splits)
next
  case WordB
  then show ?case by (auto simp: ahead_refl split: if_splits)
next
  case (Behind a)
  then show ?case
    by (cases cur) (auto simp: ahead_refl split: option.splits if_splits)
qed

lemma match_at_Some:
  assumes "match_at ic r cur adv = Some m"
  shows "m_start m = fst cur \<and> (\<exists>cur' g. (cur', g) \<in> set (rmatch ic r cur None) \<and> m_end m = fst cur' \<and> m_group m = g)"
proof -
  let ?xs = "filter (\<lambda>(cur', g). \<not> adv \<or> fst cur < fst cur') (rmatch ic r cur None)"
  from assms obtain cur' g rest where xs: "?xs = (cur', g) # rest"
    and m: "m = \<lparr>m_start = fst cur, m_end = fst cur', m_group = g\<rparr>"
    by (auto simp: match_at_def split: list.splits)
  have "(cur', g) \<in> set ?xs" using xs by simp
  then have "(cur', g) \<in> set (rmatch ic r cur None)" by simp
  with m show ?thesis
    by (intro conjI exI [of _ cur'] exI [of _ g]) simp_all
qed

lemma finditer_from_origin:
  "m \<in> set (finditer_from ic r resume cur) \<Longrightarrow>
     \<exists>cur0 adv. ahead cur cur0 \<and> match_at ic r cur0 adv = Some m"
proof (induction ic r resume cur rule: finditer_from.induct)
  case (1 ic r resume p b)
  then show ?case
    by (auto split: if_splits option.splits intro: ahead_refl)
next
  case (2 ic r resume p b c cs)
  have step: "\<And>x. ahead (Suc p, Some c, cs) x \<Longrightarrow> ahead (p, b, c # cs) x"
    by (rule ahead_trans [OF ahead_step])
  from 2 show ?case
    by (fastforce split: if_splits option.splits intro: ahead_refl step)
qed

section \<open>The group of the patterns with a group\<close>

lemma rmatch_keeps_group:
  "(cur', g') \<in> set (rmatch ic r cur g) \<Longrightarrow> g \<noteq> None \<Longrightarrow> g' \<noteq> None"
proof (induction r arbitrary: cur g cur' g')
  case (Lit l)
  then show ?case by (cases "lit_match ic l cur") auto
next
  case (One a)
  then show ?case by (cases cur) (auto split: list.splits if_splits)
next
  case (Rep a lo hi greedy)
  then show ?case by (auto simp: Let_def split: if_splits)
next
  case (Seq r1 r2)
  from Seq.prems(1) obtain mid gm where
    "(mid, gm) \<in> set (rmatch ic r1 cur g)" and "(cur', g') \<in> set (rmatch ic r2 mid gm)"
    by auto
  then show ?case
    using Seq.IH Seq.prems(2) by blast
next
  case (Alt r1 r2)
  from Alt.prems(1) have "(cur', g') \<in> set (rmatch ic r1 cur g) \<or> (cur', g') \<in> set (rmatch ic r2 cur g)"
    by simp
  then show ?case
    using Alt.IH Alt.prems(2) by blast
next
  case (Grp r)
  then show ?case by auto
next
  case (Behind a)
  then show ?case by (cases cur) (auto split: option.splits if_splits)
qed (auto split: if_splits)

lemma rmatch_sets_group:
  "sets_group r \<Longrightarrow> (cur', g') \<in> set (rmatch ic r cur g) \<Longrightarrow> g' \<noteq> None"
proof (induction r arbitrary: cur g cur' g')
  case (Seq r1 r2)
  from Seq.prems(2) obtain mid gm where
    m: "(mid, gm) \<in> set (rmatch ic r1 cur g)" "(cur', g') \<in> set (rmatch ic r2 mid gm)"
    by auto
  show ?case
  proof (cases "sets_group r2")
    case True
    with m(2) Seq.IH(2) show ?thesis by blast
  next
    case False
    with Seq.prems(1) have "sets_group r1" by simp
    with m(1) Seq.IH(1) have "gm \<noteq> None" by blast
    with m(2) show ?thesis by (rule rmatch_keeps_group)
  qed
next
  case (Alt r1 r2)
  from Alt.prems(2) have "(cur', g') \<in> set (rmatch ic r1 cur g) \<or> (cur', g') \<in> set (rmatch ic r2 cur g)"
    by simp
  moreover from Alt.prems(1) have "sets_group r1" and "sets_group r2"
    by simp_all
  ultimately show ?case
    using Alt.IH by blast
next
  case (Grp r)
  then show ?case by auto
qed simp_all

lemma search_from_sets_group:
  "sets_group r \<Longrightarrow> search_from ic r cur = Some m \<Longrightarrow> m_group m \<noteq> None"
proof (induction ic r cur rule: search_from.induct)
  case (1 ic r p b)
  then show ?case
    by (auto dest!: match_at_Some dest: rmatch_sets_group)
next
  case (2 ic r p b c cs)
  then show ?case
    by (auto split: option.splits dest!: match_at_Some dest: rmatch_sets_group)
qed

text \<open>
  Every pattern of the source from which \<open>group(1)\<close> is taken sets its group in every
  match, so that \<open>group1\<close> never meets a match without one.
\<close>

lemma source_patterns_set_group:
  "\<forall>r\<in>set product_patterns. sets_group r"
  "sets_group title_pattern"
  "\<forall>r\<in>set date_patterns. has_groups r \<longrightarrow> sets_group r"
  by (simp_all add: product_patterns_def title_pattern_def date_patterns_def line_start_def
      words_def)

lemma re_search_sets_group:
  "sets_group r \<Longrightarrow> re_search ic r s = Some m \<Longrightarrow> m_group m \<noteq> None"
  unfolding re_search_def by (rule search_from_sets_group)

section \<open>validate_ean: which codes are accepted\<close>

lemma ean13_total_decimal:
  "\<forall>i\<in>set idx. isdecimal_char (e ! i) \<Longrightarrow>
     ean13_total e idx tot =
       Inr (tot + (\<Sum>i\<leftarrow>idx. (if even i then 1 else 3) * digit_value (e ! i)))"
  by (induction idx arbitrary: tot)
     (auto simp: py_int_char_def digit_value_def algebra_simps)

lemma ean13_total_raises:
  "\<exists>i\<in>set idx. \<not> isdecimal_char (e ! i) \<Longrightarrow> ean13_total e idx tot = Inl ValueError"
  by (induction idx arbitrary: tot) (auto simp: py_int_char_def)

lemma sum_list_upto_12:
  "(\<Sum>i\<leftarrow>[0..<12]. f i) = (\<Sum>i<12. (f i :: int))"
  by (simp add: interv_sum_list_conv_sum_set_nat atLeast0LessThan)

lemma error_unique: "(x::error) = ValueError"
  by (cases x) simp

lemma validate_ean_13:
  assumes "str_isdigit (ean self)" and "length (ean self) = 13"
  shows "validate_ean self =
     (if list_all isdecimal_char (ean self)
      then Inr (spec_check_digit (ean self) = digit_value (ean self ! 12))
      else Inl ValueError)"
proof (cases "list_all isdecimal_char (ean self)")
  case True
  then have all: "\<forall>i<13. isdecimal_char (ean self ! i)"
    using assms(2) by (simp add: list_all_length)
  then have "\<forall>i\<in>set [0..<12]. isdecimal_char (ean self ! i)"
    by simp
  from ean13_total_decimal [OF this, of 0] have
    "ean13_total (ean self) [0..<12] 0 =
       Inr (\<Sum>i<12. (if even i then 1 else 3) * digit_value (ean self ! i))"
    by (simp only: sum_list_upto_12 add_0)
  moreover have "py_int_char (ean self ! 12) = Inr (digit_value (ean self ! 12))"
    using all by (simp add: py_int_char_def digit_value_def)
  ultimately show ?thesis
    using True assms by (simp add: validate_ean_def valid_lengths_def spec_check_digit_def)
next
  case False
  then obtain i where i: "i < 13" "\<not> isdecimal_char (ean self ! i)"
    using assms(2) by (auto simp: list_all_length)
  show ?thesis
  proof (cases "i < 12")
    case True
    with i have "\<exists>j\<in>set [0..<12]. \<not> isdecimal_char (ean self ! j)"
      by auto
    from ean13_total_raises [OF this] show ?thesis
      using False assms by (simp add: validate_ean_def valid_lengths_def)
  next
    case False
    with i have "i = 12" by simp
    with i have "py_int_char (ean self ! 12) = Inl ValueError"
      by (simp add: py_int_char_def)
    then show ?thesis
      using \<open>\<not> list_all isdecimal_char (ean self)\<close> assms
      by (cases "ean13_total (ean self) [0..<12] 0")
         (simp_all add: validate_ean_def valid_lengths_def error_unique)
  qed
qed

lemma validate_ean_accepts_iff:
  "validate_ean self = Inr True \<longleftrightarrow>
     str_isdigit (ean self) \<and> length (ean self) \<in> {8, 13, 14}
     \<and> (length (ean self) = 13 \<longrightarrow>
          list_all isdecimal_char (ean self)
          \<and> spec_check_digit (ean self) = digit_value (ean self ! 12))"
proof (cases "str_isdigit (ean self) \<and> length (ean self) = 13")
  case True
  then show ?thesis
    using validate_ean_13 [of self] by simp
next
  case False
  then show ?thesis
    by (auto simp: validate_ean_def valid_lengths_def)
qed

text \<open>
  Claim C1. \<open>validate_ean\<close> is to accept a code exactly when it consists of digits only,
  has length 8, 13 or 14 and, at length 13, carries the right check digit. The code tests
  \<open>str.isdigit\<close>, which also holds for the superscript digits: eight times the character
  U+00B2 is accepted although it is no string of decimal digits, and a 13-character code
  that starts with U+00B2 makes \<open>int\<close> raise \<open>ValueError\<close> instead of being rejected.
\<close>

theorem validate_ean_superscript_digits:
  "validate_ean (new_finder (replicate 8 (CHR 0xB2))) = Inr True
   \<and> \<not> list_all isdecimal_char (replicate 8 (CHR 0xB2))
   \<and> validate_ean (new_finder (CHR 0xB2 # ''234567890128'')) = Inl ValueError"
  by code_simp

section \<open>search on a code that fails validation\<close>

text \<open>
  Claim C2, as amended. When \<open>validate_ean\<close> returns \<open>False\<close>, \<open>search\<close> returns the
  empty list, whatever the network would answer and in whatever order; it raises nothing
  and returns no error value.
\<close>

theorem search_invalid_returns_empty:
  "validate_ean self = Inr False \<Longrightarrow> search self w term_order done_order = Inr []"
  by (simp add: search_def)

theorem search_invalid_returns_empty_witness:
  "validate_ean (new_finder ''1234567890123'') = Inr False
   \<and> search (new_finder ''1234567890123'') silent_world (search_terms ''1234567890123'') [0, 1, 2]
       = Inr []"
proof -
  have invalid: "validate_ean (new_finder ''1234567890123'') = Inr False"
    by code_simp
  from search_invalid_returns_empty [OF invalid] invalid show ?thesis
    by simp
qed

text \<open>
  Claim C2 as stated fails: the code \<open>1234567890128\<close> passes validation (8 is its check
  digit), and for the invalid code \<open>1234567890123\<close> the run returns the same value, the
  empty list and no error, as the run of a valid code that finds nothing.
\<close>

theorem search_invalid_like_no_results:
  "validate_ean (new_finder ''1234567890128'') = Inr True
   \<and> validate_ean (new_finder ''1234567890123'') = Inr False
   \<and> search (new_finder ''1234567890123'') silent_world (search_terms ''1234567890123'') [0, 1, 2]
       = Inr []
   \<and> search (new_finder ''1234567890128'') silent_world (search_terms ''1234567890128'') [0, 1, 2]
       = Inr []"
  by code_simp

section \<open>The findings of analyze_content\<close>

lemma finding_of_fields:
  "assessment (finding_of content u m) = assess (context_of content m)"
  "snippet (finding_of content u m) = clean_snippet (context_of content m)"
  "finding.url (finding_of content u m) = u"
  by (simp_all add: finding_of_def Let_def)

lemma list_ex_snippet:
  "list_ex (\<lambda>existing. snippet existing = v) fs \<longleftrightarrow> v \<in> snippet ` set fs"
  by (auto simp: list_ex_iff)

lemma add_finding_cases:
  "add_finding content u fs m = fs \<and> snippet (finding_of content u m) \<in> snippet ` set fs
   \<or> add_finding content u fs m = fs @ [finding_of content u m]
     \<and> snippet (finding_of content u m) \<notin> snippet ` set fs"
  by (simp add: add_finding_def Let_def list_ex_snippet)

lemma add_finding_distinct:
  "distinct (map snippet fs) \<Longrightarrow> distinct (map snippet (add_finding content u fs m))"
  using add_finding_cases [of content u fs m] by auto

lemma add_finding_snippets:
  "snippet ` set (add_finding content u fs m)
     = insert (clean_snippet (context_of content m)) (snippet ` set fs)"
  using add_finding_cases [of content u fs m] by (auto simp: finding_of_fields)

lemma add_finding_members:
  "f \<in> set (add_finding content u fs m) \<Longrightarrow> f \<in> set fs \<or> f = finding_of content u m"
  using add_finding_cases [of content u fs m] by auto

lemma foldl_add_finding_distinct:
  "distinct (map snippet fs) \<Longrightarrow> distinct (map snippet (foldl (add_finding content u) fs ms))"
  by (induction ms arbitrary: fs) (simp_all add: add_finding_distinct)

lemma foldl_add_finding_snippets:
  "snippet ` set (foldl (add_finding content u) fs ms)
     = snippet ` set fs \<union> (\<lambda>m. clean_snippet (context_of content m)) ` set ms"
  by (induction ms arbitrary: fs) (auto simp: add_finding_snippets)

lemma foldl_add_finding_members:
  "f \<in> set (foldl (add_finding content u) fs ms) \<Longrightarrow>
     f \<in> set fs \<or> (\<exists>m\<in>set ms. f = finding_of content u m)"
proof (induction ms arbitrary: fs)
  case Nil
  then show ?case by simp
next
  case (Cons m ms)
  from Cons.IH [of "add_finding content u fs m"] Cons.prems
  show ?case by (auto dest: add_finding_members)
qed

lemma pattern_findings_distinct: "distinct (map snippet (pattern_findings e content u))"
  by (simp add: pattern_findings_def foldl_add_finding_distinct)

lemma pattern_findings_snippets:
  "snippet ` set (pattern_findings e content u)
     = (\<lambda>m. clean_snippet (context_of content m)) ` set (mentions e content)"
  by (simp add: pattern_findings_def foldl_add_finding_snippets)

lemma pattern_findings_members:
  "f \<in> set (pattern_findings e content u) \<Longrightarrow>
     \<exists>m\<in>set (mentions e content). f = finding_of content u m"
  using foldl_add_finding_members [of f content u "[]" "mentions e content"]
  by (simp add: pattern_findings_def)

lemma pattern_findings_empty_iff:
  "pattern_findings e content u = [] \<longleftrightarrow> mentions e content = []"
proof -
  have "set (pattern_findings e content u) = {} \<longleftrightarrow> set (mentions e content) = {}"
    using pattern_findings_snippets [of e content u] by (metis image_is_empty)
  then show ?thesis by simp
qed

text \<open>What \<open>analyze_content\<close> returns, by the three ways through its last lines.\<close>

lemma analyze_content_cases:
  "analyze_content self content u =
     (if content = [] then None
      else if mentions (ean self) content \<noteq> []
        then Some \<lparr>source_result.url = u, findings = pattern_findings (ean self) content u\<rparr>
      else if str_contains (ean self) content
        then Some \<lparr>source_result.url = u, findings = [fallback_finding (ean self) content u]\<rparr>
      else None)"
  by (simp add: analyze_content_def Let_def pattern_findings_empty_iff)

lemma distinct_map_filter_one:
  "distinct (map g xs) \<Longrightarrow> v \<in> g ` set xs \<Longrightarrow> length (filter (\<lambda>x. g x = v) xs) = 1"
proof (induction xs)
  case Nil
  then show ?case by simp
next
  case (Cons x xs)
  show ?case
  proof (cases "g x = v")
    case True
    with Cons.prems have "\<forall>y\<in>set xs. g y \<noteq> v" by (auto simp: image_iff)
    then have "filter (\<lambda>x. g x = v) xs = []" by (simp add: filter_empty_conv)
    with True show ?thesis by simp
  next
    case False
    with Cons show ?thesis by auto
  qed
qed





text \<open>
  Claim C5. The snippets of the findings of one call are pairwise distinct, and every
  mention of the code has exactly one finding with the snippet of its window, however many
  mentions share that snippet.
\<close>

theorem findings_snippets_distinct:
  assumes "analyze_content self content u = Some r"
  shows "distinct (map snippet (findings r))
    \<and> (\<forall>m\<in>set (mentions (ean self) content).
         length (filter (\<lambda>f. snippet f = clean_snippet (context_of content m)) (findings r)) = 1)"
proof (cases "mentions (ean self) content = []")
  case True
  with assms show ?thesis
    by (auto simp: analyze_content_cases split: if_splits)
next
  case False
  with assms have r: "findings r = pattern_findings (ean self) content u"
    by (auto simp: analyze_content_cases split: if_splits)
  have d: "distinct (map snippet (findings r))"
    by (simp add: r pattern_findings_distinct)
  have "length (filter (\<lambda>f. snippet f = clean_snippet (context_of content m)) (findings r)) = 1"
    if "m \<in> set (mentions (ean self) content)" for m
  proof (rule distinct_map_filter_one [OF d])
    show "clean_snippet (context_of content m) \<in> snippet ` set (findings r)"
      using that by (simp add: r pattern_findings_snippets)
  qed
  with d show ?thesis by simp
qed


text \<open>
  Claim C10. Every finding of the result, from a pattern or from the fallback, carries
  the \<open>url\<close> argument, and so does the result itself.
\<close>

theorem findings_carry_url:
  assumes "analyze_content self content u = Some r"
  shows "source_result.url r = u \<and> (\<forall>f\<in>set (findings r). finding.url f = u)"
proof -
  have "finding.url f = u" if "f \<in> set (pattern_findings (ean self) content u)" for f
    using pattern_findings_members [OF that] by (auto simp: finding_of_fields)
  moreover have "finding.url (fallback_finding (ean self) content u) = u"
    by (simp add: fallback_finding_def Let_def)
  ultimately show ?thesis
    using assms by (auto simp: analyze_content_cases split: if_splits)
qed


text \<open>
  Claim C8. \<open>analyze_content\<close> is a function of the content, the code and the URL: two
  finder objects with the same code, whatever their other fields hold (the proxy index and
  the user agent change with every request), give the same result.
\<close>

theorem analyze_content_reads_only_ean:
  "ean self = ean other \<Longrightarrow> analyze_content self content u = analyze_content other content u"
  by (simp add: analyze_content_def Let_def)

section \<open>Matches lie inside the content and contain the code\<close>

lemma finditer_origin:
  assumes "m \<in> set (finditer ic r s)"
  shows "\<exists>cur0 cur' g. ahead (start_cursor s) cur0 \<and> (cur', g) \<in> set (rmatch ic r cur0 None)
           \<and> m_start m = fst cur0 \<and> m_end m = fst cur'"
proof -
  from assms obtain cur0 adv where a: "ahead (start_cursor s) cur0"
    and m: "match_at ic r cur0 adv = Some m"
    unfolding finditer_def by (blast dest: finditer_from_origin)
  from match_at_Some [OF m] a show ?thesis by blast
qed

lemma finditer_span:
  assumes "m \<in> set (finditer ic r s)"
  shows "m_start m \<le> m_end m \<and> m_end m \<le> length s"
proof -
  from finditer_origin [OF assms] obtain cur0 cur' g where
    a: "ahead (start_cursor s) cur0" and r: "(cur', g) \<in> set (rmatch ic r cur0 None)"
    and se: "m_start m = fst cur0" "m_end m = fst cur'"
    by blast
  have b: "ahead cur0 cur'" by (rule rmatch_ahead [OF r])
  have "ahead (start_cursor s) cur'" by (rule ahead_trans [OF a b])
  with b se show ?thesis by (simp add: ahead_def start_cursor_def)
qed

lemma ahead_prefix_sublist:
  assumes "ahead (start_cursor s) cur" and "prefix e (snd (snd cur))"
  shows "sublist e s"
proof -
  from assms(1) have "snd (snd cur) = drop (fst cur) s"
    by (simp add: ahead_def start_cursor_def)
  with assms(2) obtain ss where "drop (fst cur) s = e @ ss"
    by (auto simp: prefix_def)
  then have "s = take (fst cur) s @ e @ ss"
    by (metis append_take_drop_id)
  then show ?thesis
    unfolding sublist_def by blast
qed

lemma rmatch_Seq_iff:
  "(cur', g') \<in> set (rmatch ic (Seq r1 r2) cur g) \<longleftrightarrow>
     (\<exists>mid gm. (mid, gm) \<in> set (rmatch ic r1 cur g) \<and> (cur', g') \<in> set (rmatch ic r2 mid gm))"
  by force

lemma rmatch_Lit_iff:
  "(cur', g') \<in> set (rmatch ic (Lit l) cur g) \<longleftrightarrow> lit_match ic l cur = Some cur' \<and> g' = g"
  by (cases "lit_match ic l cur") auto

lemma rmatch_WordB_iff:
  "(cur', g') \<in> set (rmatch ic WordB cur g) \<longleftrightarrow> at_boundary cur \<and> cur' = cur \<and> g' = g"
  by auto

lemma rmatch_word_code:
  assumes "(cur', g') \<in> set (rmatch False (Seq WordB (Seq (Lit e) WordB)) cur g)"
  shows "prefix e (snd (snd cur))"
proof -
  from assms obtain c1 where "lit_match False e cur = Some c1"
    unfolding rmatch_Seq_iff rmatch_Lit_iff rmatch_WordB_iff by blast
  then show ?thesis by (rule lit_match_prefix)
qed

lemma rmatch_label_code:
  assumes "(cur', g') \<in> set (rmatch False (Seq (Lit w) (Seq (Rep a lo hi gr) (Lit e))) cur g)"
  shows "\<exists>cur1. ahead cur cur1 \<and> prefix e (snd (snd cur1))"
proof -
  from assms obtain c1 c2 g2 where c1: "lit_match False w cur = Some c1"
    and c2: "(c2, g2) \<in> set (rmatch False (Rep a lo hi gr) c1 g)"
    and e: "lit_match False e c2 = Some cur'"
    unfolding rmatch_Seq_iff rmatch_Lit_iff by blast
  have "ahead cur c2"
    using lit_match_ahead [OF c1] rmatch_ahead [OF c2] by (rule ahead_trans)
  moreover from e have "prefix e (snd (snd c2))"
    by (rule lit_match_prefix)
  ultimately show ?thesis by blast
qed

lemma ean_pattern_code:
  assumes "r \<in> set (ean_patterns e)" and "(cur', g') \<in> set (rmatch False r cur g)"
  shows "\<exists>cur1. ahead cur cur1 \<and> prefix e (snd (snd cur1))"
proof (cases "r = Seq WordB (Seq (Lit e) WordB)")
  case True
  with assms(2) have "prefix e (snd (snd cur))"
    by (blast dest: rmatch_word_code)
  then show ?thesis
    using ahead_refl by blast
next
  case False
  with assms(1) obtain w where "r = Seq (Lit w) (Seq (Rep ws_colon_dash 0 None True) (Lit e))"
    by (auto simp: ean_patterns_def)
  with assms(2) show ?thesis
    by (blast dest: rmatch_label_code)
qed

lemma mentions_contain_code:
  assumes "m \<in> set (mentions e content)"
  shows "sublist e content"
proof -
  from assms obtain r where r: "r \<in> set (ean_patterns e)" and m: "m \<in> set (finditer False r content)"
    by (auto simp: mentions_def)
  from finditer_origin [OF m] obtain cur0 cur' g where
    a: "ahead (start_cursor content) cur0" and rm: "(cur', g) \<in> set (rmatch False r cur0 None)"
    by blast
  from ean_pattern_code [OF r rm] obtain cur1 where "ahead cur0 cur1" and p: "prefix e (snd (snd cur1))"
    by blast
  with a have "ahead (start_cursor content) cur1"
    by (blast intro: ahead_trans)
  then show ?thesis
    using p by (rule ahead_prefix_sublist)
qed

lemma mentions_span:
  assumes "m \<in> set (mentions e content)"
  shows "m_start m \<le> m_end m \<and> m_end m \<le> length content"
  using assms by (auto simp: mentions_def dest: finditer_span)

lemma find_from_first:
  "sublist sub s \<Longrightarrow>
     \<exists>k. find_from sub s i = int (i + k) \<and> k + length sub \<le> length s
        \<and> prefix sub (drop k s) \<and> (\<forall>j<k. \<not> prefix sub (drop j s))"
proof (induction s arbitrary: i)
  case Nil
  then show ?case by simp
next
  case (Cons x t)
  show ?case
  proof (cases "prefix sub (x # t)")
    case True
    then have "length sub \<le> length (x # t)" by (rule prefix_length_le)
    with True show ?thesis
      by (intro exI [of _ 0]) simp
  next
    case False
    with Cons.prems have "sublist sub t"
      by (simp add: sublist_Cons_right)
    from Cons.IH [OF this, of "Suc i"] obtain k where
      k: "find_from sub t (Suc i) = int (Suc i + k)" "k + length sub \<le> length t"
         "prefix sub (drop k t)" "\<forall>j<k. \<not> prefix sub (drop j t)"
      by blast
    have "\<forall>j<Suc k. \<not> prefix sub (drop j (x # t))"
    proof (intro allI impI)
      fix j assume "j < Suc k"
      then show "\<not> prefix sub (drop j (x # t))"
        using False k(4) by (cases j) simp_all
    qed
    with k False show ?thesis
      by (intro exI [of _ "Suc k"]) simp
  qed
qed

lemma find_from_absent: "\<not> sublist sub s \<Longrightarrow> find_from sub s i = - 1"
  by (induction s arbitrary: i) (auto simp: sublist_Cons_right)

lemma str_find_first:
  assumes "str_contains e content"
  shows "\<exists>k. str_find content e = int k \<and> k + length e \<le> length content
        \<and> prefix e (drop k content) \<and> (\<forall>j<k. \<not> prefix e (drop j content))"
  using find_from_first [of e content 0] assms by (simp add: str_contains_def str_find_def)

text \<open>
  Claim C6. For every mention of the code the bounds of the window lie between 0 and the
  length of the content, in this order, so that the slice is the plain stretch of the
  content between them; the same holds for the bounds of the fallback window whenever the
  code occurs in the content.
\<close>

theorem context_window_within_content:
  "(\<forall>m\<in>set (mentions e content).
       0 \<le> window_start m \<and> window_start m \<le> window_end content m
       \<and> window_end content m \<le> int (length content)
       \<and> context_of content m
           = take (nat (window_end content m - window_start m)) (drop (nat (window_start m)) content))
   \<and> (str_contains e content \<longrightarrow>
       0 \<le> fallback_start e content \<and> fallback_start e content \<le> fallback_end e content
       \<and> fallback_end e content \<le> int (length content))"
proof (intro conjI ballI impI)
  fix m assume "m \<in> set (mentions e content)"
  then have span: "m_start m \<le> m_end m" "m_end m \<le> length content"
    using mentions_span by blast+
  show "0 \<le> window_start m"
    by (simp add: window_start_def)
  show "window_start m \<le> window_end content m"
    using span by (simp add: window_start_def window_end_def)
  show "window_end content m \<le> int (length content)"
    by (simp add: window_end_def)
  show "context_of content m
      = take (nat (window_end content m - window_start m)) (drop (nat (window_start m)) content)"
    using span
    by (simp add: context_of_def str_slice_def slice_index_def Let_def window_start_def
        window_end_def min_def max_def)
next
  assume "str_contains e content"
  from str_find_first [OF this] obtain k where k: "str_find content e = int k" "k + length e \<le> length content"
    by blast
  then show "0 \<le> fallback_start e content" "fallback_start e content \<le> fallback_end e content"
    "fallback_end e content \<le> int (length content)"
    by (simp_all add: fallback_start_def fallback_end_def)
qed

text \<open>
  Claim C4. For a non-empty code, \<open>analyze_content\<close> returns a result, and then one with
  findings, exactly when the code occurs in the content. When it occurs and no pattern
  matches, the result is the one fallback finding, \<open>Indeterminado\<close>, with the snippet of
  the window around the first occurrence.
\<close>

theorem analyze_content_finds_literal_code:
  assumes "ean self \<noteq> []"
  shows "(analyze_content self content u \<noteq> None \<longleftrightarrow> str_contains (ean self) content)
    \<and> (\<forall>r. analyze_content self content u = Some r \<longrightarrow> findings r \<noteq> [])
    \<and> (str_contains (ean self) content \<and> mentions (ean self) content = [] \<longrightarrow>
         analyze_content self content u
           = Some \<lparr>source_result.url = u, findings = [fallback_finding (ean self) content u]\<rparr>
         \<and> assessment (fallback_finding (ean self) content u) = INDETERMINADO
         \<and> snippet (fallback_finding (ean self) content u)
             = clean_snippet (str_slice content (max 0 (str_find content (ean self) - 400))
                 (min (int (length content)) (str_find content (ean self) + 400)))
         \<and> (\<exists>k. str_find content (ean self) = int k \<and> prefix (ean self) (drop k content)
                \<and> (\<forall>j<k. \<not> prefix (ean self) (drop j content))))"
proof (intro conjI allI impI)
  show "analyze_content self content u \<noteq> None \<longleftrightarrow> str_contains (ean self) content"
  proof (cases "mentions (ean self) content = []")
    case True
    have "\<not> str_contains (ean self) []"
      using assms by (simp add: str_contains_def)
    with True show ?thesis
      by (auto simp: analyze_content_cases)
  next
    case False
    then obtain m where "m \<in> set (mentions (ean self) content)"
      by (cases "mentions (ean self) content") auto
    then have c: "str_contains (ean self) content"
      unfolding str_contains_def by (rule mentions_contain_code)
    then have "content \<noteq> []"
      using assms by (auto simp: str_contains_def)
    with False c show ?thesis
      by (simp add: analyze_content_cases)
  qed
next
  fix r assume "analyze_content self content u = Some r"
  then show "findings r \<noteq> []"
    by (auto simp: analyze_content_cases pattern_findings_empty_iff split: if_splits)
next
  assume a: "str_contains (ean self) content \<and> mentions (ean self) content = []"
  then have "content \<noteq> []"
    using assms by (auto simp: str_contains_def)
  with a show "analyze_content self content u
      = Some \<lparr>source_result.url = u, findings = [fallback_finding (ean self) content u]\<rparr>"
    by (simp add: analyze_content_cases)
  show "assessment (fallback_finding (ean self) content u) = INDETERMINADO"
    by (simp add: fallback_finding_def Let_def)
  show "snippet (fallback_finding (ean self) content u)
      = clean_snippet (str_slice content (max 0 (str_find content (ean self) - 400))
          (min (int (length content)) (str_find content (ean self) + 400)))"
    by (simp add: fallback_finding_def Let_def fallback_start_def fallback_end_def)
  from a str_find_first [of "ean self" content]
  show "\<exists>k. str_find content (ean self) = int k \<and> prefix (ean self) (drop k content)
      \<and> (\<forall>j<k. \<not> prefix (ean self) (drop j content))"
    by blast
qed

section \<open>The order of completion in search\<close>

text \<open>The results that the run keeps, whatever the order.\<close>

lemma set_kept: "set (kept x) = {a. x = Some a \<and> findings a \<noteq> []}"
  by (auto simp: kept_def split: option.splits)

lemma search_result_set:
  assumes "validate_ean self = Inr True"
    and "mset term_order = mset (search_terms (ean self))"
    and "mset done_order = mset [0..<length (all_futures self w term_order)]"
  shows "\<exists>rs. search self w term_order done_order = Inr rs
     \<and> set rs = {a. findings a \<noteq> []
          \<and> (search_openfoodfacts w = Some a \<or> search_wayback_machine w = Some a
             \<or> search_amazon w = Some a
             \<or> (\<exists>term\<in>set (search_terms (ean self)). \<exists>u\<in>set (urls_of w term).
                   process_url self w u = Some a))}"
proof -
  let ?futs = "all_futures self w term_order"
  let ?rs = "concat (map (\<lambda>i. kept (?futs ! i)) done_order)"
  have s: "search self w term_order done_order = Inr ?rs"
    using assms(1) by (simp add: search_def Let_def)
  have "set done_order = {0..<length ?futs}"
    using assms(3) by (metis mset_eq_setD set_upt)
  then have "set ?rs = (\<Union>i\<in>{0..<length ?futs}. set (kept (?futs ! i)))"
    by simp
  also have "\<dots> = (\<Union>x\<in>(!) ?futs ` {0..<length ?futs}. set (kept x))"
    by simp
  also have "\<dots> = (\<Union>x\<in>set ?futs. set (kept x))"
    using nth_image [of "length ?futs" ?futs] by simp
  finally have rs: "set ?rs = (\<Union>x\<in>set ?futs. set (kept x))" .
  have terms: "set term_order = set (search_terms (ean self))"
    using assms(2) by (rule mset_eq_setD)
  have futs: "set ?futs = {search_openfoodfacts w, search_wayback_machine w, search_amazon w}
      \<union> process_url self w ` (\<Union>term\<in>set (search_terms (ean self)). set (urls_of w term))"
    by (simp add: all_futures_def url_analysis_def terms)
  have "set ?rs = {a. findings a \<noteq> []
          \<and> (search_openfoodfacts w = Some a \<or> search_wayback_machine w = Some a
             \<or> search_amazon w = Some a
             \<or> (\<exists>term\<in>set (search_terms (ean self)). \<exists>u\<in>set (urls_of w term).
                   process_url self w u = Some a))}"
    unfolding rs futs by (auto simp: set_kept)
  with s show ?thesis by blast
qed

text \<open>
  Claim C7. For a valid code, two runs against the same answers of the network, with the
  Google tasks and then all tasks completing in any two orders, return lists with the same
  members: the results with findings of the three direct lookups and of the analyses of the
  first three links of every term.
\<close>

theorem search_independent_of_completion_order:
  assumes "validate_ean self = Inr True"
    and "mset term_order = mset (search_terms (ean self))"
    and "mset done_order = mset [0..<length (all_futures self w term_order)]"
    and "mset term_order' = mset (search_terms (ean self))"
    and "mset done_order' = mset [0..<length (all_futures self w term_order')]"
  shows "\<exists>rs rs'. search self w term_order done_order = Inr rs
     \<and> search self w term_order' done_order' = Inr rs'
     \<and> set rs = set rs'
     \<and> set rs = {a. findings a \<noteq> []
          \<and> (search_openfoodfacts w = Some a \<or> search_wayback_machine w = Some a
             \<or> search_amazon w = Some a
             \<or> (\<exists>term\<in>set (search_terms (ean self)). \<exists>u\<in>set (urls_of w term).
                   process_url self w u = Some a))}"
  using search_result_set [OF assms(1,2,3)] search_result_set [OF assms(1,4,5)]
  by auto

section \<open>The scenario of the specification\<close>

text \<open>
  The content \<open>...EAN 1234567890123 fue descatalogado en 2015...\<close> is evaluated piece by
  piece: the two mentions (the bare code and the code after \<open>EAN\<close>) have the whole content
  as their window.
\<close>

lemma scenario_mentions:
  "mentions ''1234567890123'' scenario_content =
     [\<lparr>m_start = 7, m_end = 20, m_group = None\<rparr>, \<lparr>m_start = 3, m_end = 20, m_group = None\<rparr>]"
  by code_simp

lemma scenario_windows:
  "context_of scenario_content \<lparr>m_start = 7, m_end = 20, m_group = None\<rparr> = scenario_content"
  "context_of scenario_content \<lparr>m_start = 3, m_end = 20, m_group = None\<rparr> = scenario_content"
  by code_simp+

lemma scenario_product_name:
  "find_product_name scenario_content scenario_content = ''EAN 1234567890123 fue descatalogado en 2015''"
  by code_simp

lemma scenario_date_clue: "find_date_clue scenario_content = ''descatalogado''"
  by code_simp

lemma scenario_scores: "historical_score scenario_content = 2" "current_score scenario_content = 0"
  by code_simp+

lemma scenario_snippet: "clean_snippet scenario_content = scenario_content"
  by code_simp

lemma scenario_finding:
  assumes "context_of scenario_content m = scenario_content"
  shows "finding_of scenario_content u m =
     \<lparr>product_name = ''EAN 1234567890123 fue descatalogado en 2015'',
      date_clue = ''descatalogado'', assessment = HISTORICO,
      snippet = scenario_content, finding.url = u\<rparr>"
  by (simp add: finding_of_def assms scenario_product_name scenario_date_clue assess_def
      scenario_scores scenario_snippet)

lemma scenario_analysis:
  "analyze_content (new_finder ''1234567890123'') scenario_content u =
     Some \<lparr>source_result.url = u,
           findings = [\<lparr>product_name = ''EAN 1234567890123 fue descatalogado en 2015'',
                        date_clue = ''descatalogado'',
                        assessment = HISTORICO,
                        snippet = scenario_content,
                        finding.url = u\<rparr>]\<rparr>"
proof -
  have "pattern_findings ''1234567890123'' scenario_content u =
      [\<lparr>product_name = ''EAN 1234567890123 fue descatalogado en 2015'',
        date_clue = ''descatalogado'', assessment = HISTORICO,
        snippet = scenario_content, finding.url = u\<rparr>]"
    by (simp add: pattern_findings_def scenario_mentions add_finding_def
        scenario_finding scenario_windows)
  moreover have "scenario_content \<noteq> []"
    by (simp add: scenario_content_def)
  ultimately show ?thesis
    by (simp add: analyze_content_def new_finder_def)
qed

text \<open>
  Claim C9, as amended. For the scenario's content and code, \<open>analyze_content\<close> returns
  exactly one finding, its assessment is \<open>HISTORICO\<close>, and its date clue is the keyword
  \<open>descatalogado\<close>: the third date pattern, which has no group, matches before any pattern
  that captures a year is tried.
\<close>

theorem scenario_date_clue_is_the_keyword:
  "analyze_content (new_finder ''1234567890123'') scenario_content u =
     Some \<lparr>source_result.url = u,
           findings = [\<lparr>product_name = ''EAN 1234567890123 fue descatalogado en 2015'',
                        date_clue = ''descatalogado'',
                        assessment = HISTORICO,
                        snippet = scenario_content,
                        finding.url = u\<rparr>]\<rparr>"
  by (rule scenario_analysis)

text \<open>
  Claim C9 as stated fails: the date clue of the one finding is \<open>descatalogado\<close>, not
  \<open>2015\<close>.
\<close>

theorem scenario_date_clue_is_not_2015:
  "analyze_content (new_finder ''1234567890123'') scenario_content ''http://tienda.example/p'' =
     Some \<lparr>source_result.url = ''http://tienda.example/p'',
           findings = [\<lparr>product_name = ''EAN 1234567890123 fue descatalogado en 2015'',
                        date_clue = ''descatalogado'',
                        assessment = HISTORICO,
                        snippet = scenario_content,
                        finding.url = ''http://tienda.example/p''\<rparr>]\<rparr>
   \<and> ''descatalogado'' \<noteq> ''2015''"
  by (simp add: scenario_analysis)

section \<open>Instances\<close>


theorem findings_snippets_distinct_witness:
  "analyze_content (new_finder ''1234567890123'') scenario_content ''http://tienda.example/p'' =
     Some \<lparr>source_result.url = ''http://tienda.example/p'',
           findings = [\<lparr>product_name = ''EAN 1234567890123 fue descatalogado en 2015'',
                        date_clue = ''descatalogado'',
                        assessment = HISTORICO,
                        snippet = scenario_content,
                        finding.url = ''http://tienda.example/p''\<rparr>]\<rparr>
   \<and> length (mentions ''1234567890123'' scenario_content) = 2
   \<and> distinct (map snippet
        [\<lparr>product_name = ''EAN 1234567890123 fue descatalogado en 2015'',
          date_clue = ''descatalogado'', assessment = HISTORICO,
          snippet = scenario_content, finding.url = ''http://tienda.example/p''\<rparr>])
   \<and> length (filter (\<lambda>f. snippet f
          = clean_snippet (context_of scenario_content \<lparr>m_start = 7, m_end = 20, m_group = None\<rparr>))
        [\<lparr>product_name = ''EAN 1234567890123 fue descatalogado en 2015'',
          date_clue = ''descatalogado'', assessment = HISTORICO,
          snippet = scenario_content, finding.url = ''http://tienda.example/p''\<rparr>]) = 1
   \<and> length (filter (\<lambda>f. snippet f
          = clean_snippet (context_of scenario_content \<lparr>m_start = 3, m_end = 20, m_group = None\<rparr>))
        [\<lparr>product_name = ''EAN 1234567890123 fue descatalogado en 2015'',
          date_clue = ''descatalogado'', assessment = HISTORICO,
          snippet = scenario_content, finding.url = ''http://tienda.example/p''\<rparr>]) = 1"
  using findings_snippets_distinct [OF scenario_analysis [of "''http://tienda.example/p''"]]
    scenario_analysis [of "''http://tienda.example/p''"]
  by (simp add: new_finder_def scenario_mentions)

theorem findings_carry_url_witness:
  "analyze_content (new_finder ''1234567890123'') scenario_content ''http://tienda.example/p'' =
     Some \<lparr>source_result.url = ''http://tienda.example/p'',
           findings = [\<lparr>product_name = ''EAN 1234567890123 fue descatalogado en 2015'',
                        date_clue = ''descatalogado'',
                        assessment = HISTORICO,
                        snippet = scenario_content,
                        finding.url = ''http://tienda.example/p''\<rparr>]\<rparr>
   \<and> source_result.url
        \<lparr>source_result.url = ''http://tienda.example/p'',
         findings = [\<lparr>product_name = ''EAN 1234567890123 fue descatalogado en 2015'',
                      date_clue = ''descatalogado'', assessment = HISTORICO,
                      snippet = scenario_content, finding.url = ''http://tienda.example/p''\<rparr>]\<rparr>
       = ''http://tienda.example/p''
   \<and> finding.url
        \<lparr>product_name = ''EAN 1234567890123 fue descatalogado en 2015'',
         date_clue = ''descatalogado'', assessment = HISTORICO,
         snippet = scenario_content, finding.url = ''http://tienda.example/p''\<rparr>
       = ''http://tienda.example/p''"
  using findings_carry_url [OF scenario_analysis [of "''http://tienda.example/p''"]]
    scenario_analysis [of "''http://tienda.example/p''"]
  by simp

theorem analyze_content_reads_only_ean_witness:
  "ean (new_finder ''1234567890123'')
     = ean ((new_finder ''1234567890123'')\<lparr>proxy_index := 7, user_agent := ''Mozilla/5.0''\<rparr>)
   \<and> analyze_content (new_finder ''1234567890123'') scenario_content ''http://tienda.example/p''
     = analyze_content
         ((new_finder ''1234567890123'')\<lparr>proxy_index := 7, user_agent := ''Mozilla/5.0''\<rparr>)
         scenario_content ''http://tienda.example/p''"
proof -
  have same: "ean (new_finder ''1234567890123'')
      = ean ((new_finder ''1234567890123'')\<lparr>proxy_index := 7, user_agent := ''Mozilla/5.0''\<rparr>)"
    by simp
  from same analyze_content_reads_only_ean [OF same] show ?thesis
    by (rule conjI)
qed

lemma hidden_code_facts:
  "str_contains ''1234567890123'' ''SKU81234567890123''"
  "mentions ''1234567890123'' ''SKU81234567890123'' = []"
  by code_simp+

theorem analyze_content_finds_literal_code_witness:
  "ean (new_finder ''1234567890123'') \<noteq> []
   \<and> str_contains (ean (new_finder ''1234567890123'')) ''SKU81234567890123''
   \<and> mentions (ean (new_finder ''1234567890123'')) ''SKU81234567890123'' = []
   \<and> analyze_content (new_finder ''1234567890123'') ''SKU81234567890123'' ''http://tienda.example/p''
       \<noteq> None
   \<and> analyze_content (new_finder ''1234567890123'') ''SKU81234567890123'' ''http://tienda.example/p''
       = Some \<lparr>source_result.url = ''http://tienda.example/p'',
           findings = [fallback_finding (ean (new_finder ''1234567890123'')) ''SKU81234567890123''
                         ''http://tienda.example/p'']\<rparr>
   \<and> assessment (fallback_finding (ean (new_finder ''1234567890123'')) ''SKU81234567890123''
         ''http://tienda.example/p'') = INDETERMINADO"
proof -
  have e: "ean (new_finder ''1234567890123'') = ''1234567890123''"
    by (simp add: new_finder_def)
  have ne: "ean (new_finder ''1234567890123'') \<noteq> []"
    by (simp add: e)
  from analyze_content_finds_literal_code [OF ne, of "''SKU81234567890123''" "''http://tienda.example/p''"]
  show ?thesis
    by (simp add: e hidden_code_facts)
qed

theorem context_window_within_content_witness:
  "\<lparr>m_start = 7, m_end = 20, m_group = None\<rparr> \<in> set (mentions ''1234567890123'' scenario_content)
   \<and> 0 \<le> window_start \<lparr>m_start = 7, m_end = 20, m_group = None\<rparr>
   \<and> window_start \<lparr>m_start = 7, m_end = 20, m_group = None\<rparr>
       \<le> window_end scenario_content \<lparr>m_start = 7, m_end = 20, m_group = None\<rparr>
   \<and> window_end scenario_content \<lparr>m_start = 7, m_end = 20, m_group = None\<rparr>
       \<le> int (length scenario_content)
   \<and> str_contains ''1234567890123'' scenario_content
   \<and> 0 \<le> fallback_start ''1234567890123'' scenario_content
   \<and> fallback_start ''1234567890123'' scenario_content \<le> fallback_end ''1234567890123'' scenario_content
   \<and> fallback_end ''1234567890123'' scenario_content \<le> int (length scenario_content)"
proof -
  have c: "str_contains ''1234567890123'' scenario_content"
    by code_simp
  from context_window_within_content [of "''1234567890123''" scenario_content] c
  show ?thesis
    by (simp add: scenario_mentions)
qed

text \<open>Two runs in the world with one page, with the tasks completing in two orders.\<close>

lemma one_page_futures:
  "length (all_futures (new_finder ''12345678'') one_page_world (search_terms ''12345678'')) = 4"
  "length (all_futures (new_finder ''12345678'') one_page_world (rev (search_terms ''12345678''))) = 4"
  by (simp_all add: all_futures_def url_analysis_def urls_of_def search_terms_def one_page_world_def)

theorem search_independent_of_completion_order_witness:
  "validate_ean (new_finder ''12345678'') = Inr True
   \<and> mset (search_terms ''12345678'') = mset (search_terms (ean (new_finder ''12345678'')))
   \<and> mset [0, 1, 2, 3]
       = mset [0..<length (all_futures (new_finder ''12345678'') one_page_world
                  (search_terms ''12345678''))]
   \<and> mset (rev (search_terms ''12345678'')) = mset (search_terms (ean (new_finder ''12345678'')))
   \<and> mset [3, 1, 0, 2]
       = mset [0..<length (all_futures (new_finder ''12345678'') one_page_world
                  (rev (search_terms ''12345678'')))]
   \<and> (\<exists>rs rs'. search (new_finder ''12345678'') one_page_world (search_terms ''12345678'') [0, 1, 2, 3]
                   = Inr rs
          \<and> search (new_finder ''12345678'') one_page_world (rev (search_terms ''12345678''))
               [3, 1, 0, 2] = Inr rs'
          \<and> set rs = set rs')"
proof -
  have valid: "validate_ean (new_finder ''12345678'') = Inr True"
    by code_simp
  have e: "ean (new_finder ''12345678'') = ''12345678''"
    by (simp add: new_finder_def)
  have t: "mset (search_terms ''12345678'') = mset (search_terms (ean (new_finder ''12345678'')))"
    by (simp add: e)
  have t': "mset (rev (search_terms ''12345678'')) = mset (search_terms (ean (new_finder ''12345678'')))"
    by (simp add: e)
  have upt4: "[0..<4] = [0, 1, 2, Suc 2]"
    by (simp add: upt_rec)
  have d: "mset [0, 1, 2, 3]
      = mset [0..<length (all_futures (new_finder ''12345678'') one_page_world
                 (search_terms ''12345678''))]"
    by (simp add: one_page_futures upt4)
  have d': "mset [3, 1, 0, 2]
      = mset [0..<length (all_futures (new_finder ''12345678'') one_page_world
                 (rev (search_terms ''12345678'')))]"
    by (simp add: one_page_futures upt4)
  from search_independent_of_completion_order [OF valid t d t' d']
  have "\<exists>rs rs'. search (new_finder ''12345678'') one_page_world (search_terms ''12345678'') [0, 1, 2, 3]
                   = Inr rs
          \<and> search (new_finder ''12345678'') one_page_world (rev (search_terms ''12345678''))
               [3, 1, 0, 2] = Inr rs'
          \<and> set rs = set rs'"
    by blast
  with valid t d t' d' show ?thesis
    by blast
qed

end
